theory Spec2Isabelle
  imports Main "HOL-Library.Char_ord" "HOL-Library.List_Lexorder"
begin

section \<open>Python values of the email parser\<close>

text \<open>
  The theory embeds \<^verbatim>\<open>src/email_parser.py\<close>: the body cleaner
  \<^verbatim>\<open>parse_email_bodies\<close>, the issue number search \<^verbatim>\<open>get_issue_num_list\<close> and the
  two lines of \<^verbatim>\<open>main\<close> that turn its result into the issue range.

  A Python \<^verbatim>\<open>str\<close> is a \<^typ>\<open>string\<close>; a character is a code point below 256, so
  the text treated here is Latin-1 text. Exceptions are values: a function that may raise
  returns \<open>py_error + 'a\<close>, with \<open>Inl\<close> for the exception.
\<close>

datatype py_error =
    KeyError
  | IndexError
  | TypeError
  | Unmodelled

text \<open>
  \<open>Unmodelled\<close> is no Python exception. It marks the two places where the embedding stops
  following the interpreter: a repository name that carries a regular expression operator
  other than the dot (see \<open>issue_url\<close>), and a call of \<^verbatim>\<open>int\<close> on text that is not a
  plain run of decimal digits (see \<open>py_int\<close>).
\<close>

subsection \<open>Character classes\<close>

text \<open>
  \<^verbatim>\<open>str.isprintable\<close> on one character: false on the Unicode categories Other and
  Separator, the ASCII space excepted. Below 256 these are the control characters
  0..31 and 127..159, the no-break space 160 and the soft hyphen 173.
\<close>

definition isprintable :: "char \<Rightarrow> bool" where
  "isprintable c =
     (let n = (of_char c :: nat) in (32 \<le> n \<and> n < 127) \<or> (161 \<le> n \<and> n \<noteq> 173))"

text \<open>
  The class \<^verbatim>\<open>\d\<close> of \<^verbatim>\<open>re\<close> on a \<^verbatim>\<open>str\<close> pattern: the decimal digits (category
  Nd), which below 256 are the ten ASCII digits.
\<close>

definition isdecimal :: "char \<Rightarrow> bool" where
  "isdecimal c = (c \<in> set ''0123456789'')"

subsection \<open>The fragment of \<^verbatim>\<open>re\<close> the parser uses\<close>

text \<open>
  The two patterns of \<^verbatim>\<open>get_issue_num_list\<close> are sequences of single characters, the
  dot, \<^verbatim>\<open>\d+\<close> and \<^verbatim>\<open>$\<close>. A pattern is a list of items; \<open>match_here\<close> is the
  backtracking matcher anchored at the start of the text and returns how many characters
  the match consumed. \<open>Plus\<close> is greedy: it first tries to take one more character and
  gives it back when the rest of the pattern fails. \<open>Dollar\<close> (no \<^verbatim>\<open>MULTILINE\<close>) holds
  at the end of the text and just before a newline that ends the text. The dot matches
  every character but the newline.
\<close>

datatype atom = Lit char | Dot | Digit

datatype item = One atom | Plus atom | Dollar

fun atom_matches :: "atom \<Rightarrow> char \<Rightarrow> bool" where
  "atom_matches (Lit a) c = (a = c)"
| "atom_matches Dot c = (c \<noteq> CHR 0x0A)"
| "atom_matches Digit c = isdecimal c"

fun match_here :: "item list \<Rightarrow> string \<Rightarrow> nat option" where
  "match_here [] s = Some 0"
| "match_here (Dollar # ps) s =
     (if s = [] \<or> s = [CHR 0x0A] then match_here ps s else None)"
| "match_here (One a # ps) [] = None"
| "match_here (One a # ps) (c # cs) =
     (if atom_matches a c then map_option Suc (match_here ps cs) else None)"
| "match_here (Plus a # ps) [] = None"
| "match_here (Plus a # ps) (c # cs) =
     (if atom_matches a c
      then (case match_here (Plus a # ps) cs of
              Some n \<Rightarrow> Some (Suc n)
            | None \<Rightarrow> map_option Suc (match_here ps cs))
      else None)"

text \<open>
  \<^verbatim>\<open>re.search(p, s)\<close>: the leftmost position where the pattern matches, the end of the
  text included. The result is \<^verbatim>\<open>None\<close> or the matched text, \<^verbatim>\<open>match.group()\<close>.
\<close>

fun re_search :: "item list \<Rightarrow> string \<Rightarrow> string option" where
  "re_search p [] = (case match_here p [] of Some n \<Rightarrow> Some [] | None \<Rightarrow> None)"
| "re_search p (c # cs) =
     (case match_here p (c # cs) of
        Some n \<Rightarrow> Some (take n (c # cs))
      | None \<Rightarrow> re_search p cs)"

definition lits :: "string \<Rightarrow> item list" where
  "lits s = map (\<lambda>c. One (Lit c)) s"

text \<open>The pattern \<^verbatim>\<open>r"\(Issue \#\d+\)"\<close>.\<close>

definition subject_issue_str :: "item list" where
  "subject_issue_str = lits ''(Issue #'' @ [Plus Digit] @ lits '')''"

text \<open>
  The pattern \<^verbatim>\<open>rf"https://github.com/{cfg_repo}/issues/\d+$"\<close>. The repository name
  is pasted into the pattern as it is, so its characters are pattern text: a dot in it
  is the wildcard, as the dot of \<^verbatim>\<open>github.com\<close> is. The other operators of \<^verbatim>\<open>re\<close>
  (backslash, \<^verbatim>\<open>^ $ * + ? { } [ ] ( ) |\<close>) do not occur in the owner and repository
  names GitHub accepts; a name that carries one has no pattern here.
\<close>

definition re_special :: "char \<Rightarrow> bool" where
  "re_special c = (c \<in> set (CHR 0x5C # ''^$*+?{}[]()|''))"

definition re_char :: "char \<Rightarrow> item option" where
  "re_char c =
     (if c = CHR ''.'' then Some (One Dot)
      else if re_special c then None
      else Some (One (Lit c)))"

definition issue_url :: "string \<Rightarrow> item list option" where
  "issue_url cfg_repo =
     (case those (map re_char cfg_repo) of
        None \<Rightarrow> None
      | Some repo_items \<Rightarrow>
          Some (lits ''https://github'' @ [One Dot] @ lits ''com/'' @ repo_items
                @ lits ''/issues/'' @ [Plus Digit, Dollar]))"

subsection \<open>String operations\<close>

text \<open>\<^verbatim>\<open>sub in s\<close> on strings: \<open>sub\<close> occurs in \<open>s\<close> as a contiguous piece.\<close>

fun starts_with :: "string \<Rightarrow> string \<Rightarrow> bool" where
  "starts_with [] s = True"
| "starts_with (a # sub) [] = False"
| "starts_with (a # sub) (c # cs) = (a = c \<and> starts_with sub cs)"

fun str_contains :: "string \<Rightarrow> string \<Rightarrow> bool" where
  "str_contains sub [] = (sub = [])"
| "str_contains sub (c # cs) = (starts_with sub (c # cs) \<or> str_contains sub cs)"

text \<open>
  \<^verbatim>\<open>string.rsplit("/", 1)[1]\<close>: the text after the last slash. Without a slash the
  split has one element and the index raises.
\<close>

definition rsplit_last :: "string \<Rightarrow> py_error + string" where
  "rsplit_last s =
     (if CHR ''/'' \<in> set s
      then Inr (rev (takeWhile (\<lambda>c. c \<noteq> CHR ''/'') (rev s)))
      else Inl IndexError)"

text \<open>
  \<^verbatim>\<open>int(s)\<close> on a non-empty run of decimal digits. Python's \<^verbatim>\<open>int\<close> also reads
  signs, surrounding white space and underscores, and raises \<^verbatim>\<open>ValueError\<close> on other
  text; these are outside the embedding.
\<close>

definition digit_val :: "char \<Rightarrow> int" where
  "digit_val c = int (of_char c) - 48"

definition py_int :: "string \<Rightarrow> py_error + int" where
  "py_int s =
     (if s \<noteq> [] \<and> list_all isdecimal s
      then Inr (foldl (\<lambda>n c. 10 * n + digit_val c) 0 s)
      else Inl Unmodelled)"

section \<open>The email dictionary\<close>

text \<open>
  \<^verbatim>\<open>get_email_content_dict\<close> builds one inner dictionary per message, with the keys
  \<^verbatim>\<open>date\<close>, \<^verbatim>\<open>subject\<close> and \<^verbatim>\<open>body\<close>, under the message's index. The inner
  dictionary is a record; the body is text before \<^verbatim>\<open>parse_email_bodies\<close> and a list of
  text fragments after it. The outer dictionary is the list of its items in insertion
  order, which is the order \<^verbatim>\<open>keys()\<close> and \<^verbatim>\<open>values()\<close> iterate in.
\<close>

record 'b email =
  date :: string
  subject :: string
  body :: 'b

type_synonym 'b email_dict = "(nat \<times> 'b email) list"

section \<open>\<^verbatim>\<open>parse_email_bodies\<close>\<close>

text \<open>
  The inner loop over the characters of one body, with its two variables
  \<^verbatim>\<open>filtered_body_list\<close> and \<^verbatim>\<open>filtered_body\<close>. The value is the list the source
  assigns to the body after the loop.
\<close>

fun parse_body_loop :: "string \<Rightarrow> string list \<Rightarrow> string \<Rightarrow> string list" where
  "parse_body_loop [] filtered_body_list filtered_body = filtered_body_list"
| "parse_body_loop (c # cs) filtered_body_list filtered_body =
     (if isprintable c
      then parse_body_loop cs filtered_body_list (filtered_body @ [c])
      else if filtered_body \<noteq> []
      then parse_body_loop cs (filtered_body_list @ [filtered_body]) []
      else parse_body_loop cs filtered_body_list filtered_body)"

definition parse_body :: "string \<Rightarrow> string list" where
  "parse_body text = parse_body_loop text [] []"

definition parse_email_bodies :: "string email_dict \<Rightarrow> string list email_dict" where
  "parse_email_bodies email_dict =
     map (\<lambda>(key, entry).
            (key, \<lparr>date = date entry, subject = subject entry,
                   body = parse_body (body entry)\<rparr>))
         email_dict"

section \<open>\<^verbatim>\<open>get_issue_num_list\<close>\<close>

text \<open>
  The list comprehension that builds \<^verbatim>\<open>body_list\<close>: for each fragment of the body
  the pattern finds, the text after the fragment's last slash.
\<close>

fun body_list_of :: "item list \<Rightarrow> string list \<Rightarrow> py_error + string list" where
  "body_list_of url [] = Inr []"
| "body_list_of url (s # ss) =
     (if re_search url s \<noteq> None
      then (case rsplit_last s of
              Inl e \<Rightarrow> Inl e
            | Inr num \<Rightarrow>
                (case body_list_of url ss of
                   Inl e \<Rightarrow> Inl e
                 | Inr nums \<Rightarrow> Inr (num # nums)))
      else body_list_of url ss)"

text \<open>
  \<^verbatim>\<open>issue_list.append(*issue_num)\<close>: the list is unpacked into the arguments of
  \<^verbatim>\<open>append\<close>, which takes exactly one.
\<close>

definition append_star :: "string list \<Rightarrow> string list \<Rightarrow> py_error + string list" where
  "append_star issue_list issue_num =
     (case issue_num of
        [num] \<Rightarrow> Inr (issue_list @ [num])
      | _ \<Rightarrow> Inl TypeError)"

text \<open>One turn of the loop over the messages, on the list gathered so far.\<close>

definition github_entry ::
  "item list \<Rightarrow> string list email \<Rightarrow> string list \<Rightarrow> py_error + string list" where
  "github_entry url entry issue_list =
     (case body_list_of url (body entry) of
        Inl e \<Rightarrow> Inl e
      | Inr body_list \<Rightarrow>
          if body_list \<noteq> [] then
            (case re_search subject_issue_str (subject entry) of
               None \<Rightarrow> Inr issue_list
             | Some subject_issue \<Rightarrow>
                 append_star issue_list
                   (filter (\<lambda>num. str_contains num subject_issue) body_list))
          else Inr issue_list)"

fun github_loop ::
  "item list \<Rightarrow> string list email list \<Rightarrow> string list \<Rightarrow> py_error + string list" where
  "github_loop url [] issue_list = Inr issue_list"
| "github_loop url (entry # entries) issue_list =
     (case github_entry url entry issue_list of
        Inl e \<Rightarrow> Inl e
      | Inr issue_list' \<Rightarrow> github_loop url entries issue_list')"

text \<open>
  The configuration is a dictionary from names to text. \<^verbatim>\<open>sorted\<close> orders Python
  strings by their code points, a proper prefix first: the order of \<^typ>\<open>string\<close>.
\<close>

definition get_issue_num_list ::
  "string list email_dict \<Rightarrow> (string \<rightharpoonup> string) \<Rightarrow> py_error + string list" where
  "get_issue_num_list email_dict cfg_dict =
     (case cfg_dict ''repo'' of
        None \<Rightarrow> Inl KeyError
      | Some cfg_repo \<Rightarrow>
     (case cfg_dict ''sender'' of
        None \<Rightarrow> Inl KeyError
      | Some cfg_sender \<Rightarrow>
          if str_contains ''github'' cfg_sender then
            (case issue_url cfg_repo of
               None \<Rightarrow> Inl Unmodelled
             | Some url \<Rightarrow>
                 (case github_loop url (map snd email_dict) [] of
                    Inl e \<Rightarrow> Inl e
                  | Inr issue_list \<Rightarrow> Inr (sort issue_list)))
          else if str_contains ''jira'' cfg_sender then Inr (sort [])
          else Inr (sort [])))"

section \<open>The issue range of \<^verbatim>\<open>main\<close>\<close>

text \<open>
  \<^verbatim>\<open>issue_list = get_issue_num_list(email_content_dict, parser_cfg)\<close> and then
  \<^verbatim>\<open>issue_list = [int(issue_list[0]), int(issue_list[-1])]\<close>: the range handed to the
  extractor, as the pair of its two elements.
\<close>

definition main_issue_range ::
  "string list email_dict \<Rightarrow> (string \<rightharpoonup> string) \<Rightarrow> py_error + (int \<times> int)" where
  "main_issue_range email_content_dict parser_cfg =
     (case get_issue_num_list email_content_dict parser_cfg of
        Inl e \<Rightarrow> Inl e
      | Inr issue_list \<Rightarrow>
          (case issue_list of
             [] \<Rightarrow> Inl IndexError
           | first # _ \<Rightarrow>
               (case py_int first of
                  Inl e \<Rightarrow> Inl e
                | Inr lo \<Rightarrow>
                    (case py_int (last issue_list) of
                       Inl e \<Rightarrow> Inl e
                     | Inr hi \<Rightarrow> Inr (lo, hi)))))"

section \<open>Shapes of text\<close>

text \<open>
  A non-empty run of decimal digits, and what can stand after the last slash of a
  fragment the link pattern finds: such a run, or such a run and one newline.
\<close>

definition digit_str :: "string \<Rightarrow> bool" where
  "digit_str s = (s \<noteq> [] \<and> list_all isdecimal s)"

definition link_tail :: "string \<Rightarrow> bool" where
  "link_tail t = (\<exists>ds. digit_str ds \<and> (t = ds \<or> t = ds @ [CHR 0x0A]))"

section \<open>Facts about the string operations and the matcher\<close>

lemma starts_with_iff: "starts_with sub s \<longleftrightarrow> (\<exists>post. s = sub @ post)"
  by (induction sub s rule: starts_with.induct) auto

lemma str_contains_iff: "str_contains sub s \<longleftrightarrow> (\<exists>pre post. s = pre @ sub @ post)"
proof (induction s)
  case Nil
  then show ?case by auto
next
  case (Cons c cs)
  show ?case
  proof
    assume "str_contains sub (c # cs)"
    then consider "starts_with sub (c # cs)" | "str_contains sub cs" by auto
    then show "\<exists>pre post. c # cs = pre @ sub @ post"
    proof cases
      case 1
      then obtain post where "c # cs = sub @ post" by (auto simp: starts_with_iff)
      then have "c # cs = [] @ sub @ post" by simp
      then show ?thesis by blast
    next
      case 2
      then obtain pre post where "cs = pre @ sub @ post" using Cons.IH by auto
      then have "c # cs = (c # pre) @ sub @ post" by simp
      then show ?thesis by blast
    qed
  next
    assume "\<exists>pre post. c # cs = pre @ sub @ post"
    then obtain pre post where eq: "c # cs = pre @ sub @ post" by auto
    show "str_contains sub (c # cs)"
    proof (cases pre)
      case Nil
      then have "starts_with sub (c # cs)" using eq by (auto simp: starts_with_iff)
      then show ?thesis by simp
    next
      case (Cons a pre')
      then have "cs = pre' @ sub @ post" using eq by simp
      then have "str_contains sub cs" using Cons.IH by blast
      then show ?thesis by simp
    qed
  qed
qed

lemma str_contains_subset: "str_contains sub s \<Longrightarrow> set sub \<subseteq> set s"
  by (auto simp: str_contains_iff)

lemma match_here_le: "match_here p s = Some n \<Longrightarrow> n \<le> length s"
  by (induction p s arbitrary: n rule: match_here.induct) (auto split: if_splits option.splits)

lemma match_here_Plus:
  "match_here (Plus a # q) t = Some n \<Longrightarrow>
     \<exists>ds r m. t = ds @ r \<and> ds \<noteq> [] \<and> list_all (atom_matches a) ds \<and>
       match_here q r = Some m \<and> n = length ds + m"
proof (induction t arbitrary: n)
  case Nil
  then show ?case by simp
next
  case (Cons c cs)
  then have c: "atom_matches a c" by (auto split: if_splits)
  show ?case
  proof (cases "match_here (Plus a # q) cs")
    case None
    with Cons.prems c obtain m where "match_here q cs = Some m" "n = Suc m" by auto
    then have "c # cs = [c] @ cs \<and> [c] \<noteq> [] \<and> list_all (atom_matches a) [c] \<and>
       match_here q cs = Some m \<and> n = length [c] + m" using c by simp
    then show ?thesis by blast
  next
    case (Some k)
    with Cons.prems c have n: "n = Suc k" by auto
    from Cons.IH[OF Some] obtain ds r m where
      "cs = ds @ r" "ds \<noteq> []" "list_all (atom_matches a) ds" "match_here q r = Some m" "k = length ds + m"
      by blast
    then have "c # cs = (c # ds) @ r \<and> c # ds \<noteq> [] \<and> list_all (atom_matches a) (c # ds) \<and>
       match_here q r = Some m \<and> n = length (c # ds) + m" using c n by simp
    then show ?thesis by blast
  qed
qed

lemma match_here_append:
  "match_here (p @ q) s = Some n \<Longrightarrow> \<exists>k m. k \<le> length s \<and> match_here q (drop k s) = Some m \<and> n = k + m"
proof (induction p arbitrary: s n)
  case Nil
  then have "0 \<le> length s \<and> match_here q (drop 0 s) = Some n \<and> n = 0 + n" by simp
  then show ?case by blast
next
  case (Cons i p)
  show ?case
  proof (cases i)
    case (One a)
    with Cons.prems obtain c cs m where s: "s = c # cs" and m: "match_here (p @ q) cs = Some m" and n: "n = Suc m"
      by (cases s) (auto split: if_splits)
    from Cons.IH[OF m] obtain k m' where "k \<le> length cs" "match_here q (drop k cs) = Some m'" "m = k + m'" by blast
    then have "Suc k \<le> length s \<and> match_here q (drop (Suc k) s) = Some m' \<and> n = Suc k + m'"
      using s n by simp
    then show ?thesis by blast
  next
    case (Plus a)
    with Cons.prems have "match_here (Plus a # (p @ q)) s = Some n" by simp
    from match_here_Plus[OF this] obtain ds r m where
      d: "s = ds @ r" "match_here (p @ q) r = Some m" "n = length ds + m" by blast
    from Cons.IH[OF d(2)] obtain k m' where "k \<le> length r" "match_here q (drop k r) = Some m'" "m = k + m'" by blast
    then have "length ds + k \<le> length s \<and> match_here q (drop (length ds + k) s) = Some m' \<and> n = (length ds + k) + m'"
      using d by simp
    then show ?thesis by blast
  next
    case Dollar
    with Cons.prems have "match_here (p @ q) s = Some n" by (auto split: if_splits)
    from Cons.IH[OF this] show ?thesis .
  qed
qed

lemma match_here_lits:
  "match_here (lits w @ q) t = Some n \<longleftrightarrow>
     (\<exists>r m. t = w @ r \<and> match_here q r = Some m \<and> n = length w + m)"
proof (induction w arbitrary: t n)
  case Nil
  then show ?case by (simp add: lits_def)
next
  case (Cons a w)
  show ?case
  proof (cases t)
    case Nil
    then show ?thesis by (simp add: lits_def)
  next
    case (Cons c cs)
    have "match_here (lits (a # w) @ q) (c # cs) = Some n \<longleftrightarrow>
          (a = c \<and> (\<exists>k. match_here (lits w @ q) cs = Some k \<and> n = Suc k))"
      by (auto simp: lits_def)
    also have "\<dots> \<longleftrightarrow> (a = c \<and> (\<exists>k. (\<exists>r m. cs = w @ r \<and> match_here q r = Some m \<and> k = length w + m) \<and> n = Suc k))"
      using Cons.IH by simp
    also have "\<dots> \<longleftrightarrow> (\<exists>r m. c # cs = (a # w) @ r \<and> match_here q r = Some m \<and> n = length (a # w) + m)"
      by auto
    finally show ?thesis using Cons by simp
  qed
qed

lemma re_search_Some:
  "re_search p s = Some g \<Longrightarrow> \<exists>i n. i \<le> length s \<and> match_here p (drop i s) = Some n \<and> g = take n (drop i s)"
proof (induction s)
  case Nil
  then show ?case by (auto split: option.splits)
next
  case (Cons c cs)
  show ?case
  proof (cases "match_here p (c # cs)")
    case (Some n)
    with Cons.prems have "g = take n (c # cs)" by simp
    with Some have "0 \<le> length (c # cs) \<and> match_here p (drop 0 (c # cs)) = Some n \<and> g = take n (drop 0 (c # cs))" by simp
    then show ?thesis by blast
  next
    case None
    with Cons.prems have "re_search p cs = Some g" by simp
    from Cons.IH[OF this] obtain i n where "i \<le> length cs" "match_here p (drop i cs) = Some n" "g = take n (drop i cs)" by blast
    then have "Suc i \<le> length (c # cs) \<and> match_here p (drop (Suc i) (c # cs)) = Some n \<and> g = take n (drop (Suc i) (c # cs))" by simp
    then show ?thesis by blast
  qed
qed

lemma re_search_None:
  "re_search p s = None \<longleftrightarrow> (\<forall>i \<le> length s. match_here p (drop i s) = None)"
proof (induction s)
  case Nil
  then show ?case by (auto split: option.splits)
next
  case (Cons c cs)
  have "(\<forall>i \<le> length (c # cs). match_here p (drop i (c # cs)) = None) \<longleftrightarrow>
        (match_here p (c # cs) = None \<and> (\<forall>i \<le> length cs. match_here p (drop i cs) = None))"
    (is "?L \<longleftrightarrow> ?R")
  proof
    assume l: ?L
    have "match_here p (drop 0 (c # cs)) = None" using l by blast
    moreover have "\<forall>i \<le> length cs. match_here p (drop i cs) = None"
    proof (intro allI impI)
      fix i assume "i \<le> length cs"
      then have "Suc i \<le> length (c # cs)" by simp
      then have "match_here p (drop (Suc i) (c # cs)) = None" using l by blast
      then show "match_here p (drop i cs) = None" by simp
    qed
    ultimately show ?R by simp
  next
    assume r: ?R
    show ?L
    proof (intro allI impI)
      fix i assume "i \<le> length (c # cs)"
      then show "match_here p (drop i (c # cs)) = None" using r by (cases i) auto
    qed
  qed
  then show ?case using Cons.IH by (auto split: option.splits)
qed

subsection \<open>What the two patterns find\<close>

lemma isdecimal_not_slash: "isdecimal c \<Longrightarrow> c \<noteq> CHR ''/''"
  by (auto simp: isdecimal_def)

lemma link_tail_no_slash:
  assumes "link_tail t"
  shows "CHR ''/'' \<notin> set t"
proof -
  from assms obtain ds where ds: "list_all isdecimal ds"
    and t: "t = ds \<or> t = ds @ [CHR 0x0A]"
    unfolding link_tail_def digit_str_def by blast
  have "CHR ''/'' \<notin> set ds"
  proof
    assume "CHR ''/'' \<in> set ds"
    then have "isdecimal CHR ''/''" using ds by (simp add: list_all_iff)
    then show False by (simp add: isdecimal_def)
  qed
  then show ?thesis using t by auto
qed

lemma match_here_Dollar: "match_here [Dollar] r = Some m \<Longrightarrow> r = [] \<or> r = [CHR 0x0A]"
  by (auto split: if_splits)

lemma match_here_tail:
  assumes "match_here [One (Lit CHR ''/''), Plus Digit, Dollar] t = Some m"
  shows "\<exists>u. t = CHR ''/'' # u \<and> link_tail u"
proof -
  from assms obtain u k where t: "t = CHR ''/'' # u" and k: "match_here [Plus Digit, Dollar] u = Some k"
    by (cases t) (auto split: if_splits)
  from match_here_Plus[OF k] obtain ds r j where
    d: "u = ds @ r" "ds \<noteq> []" "list_all (atom_matches Digit) ds" "match_here [Dollar] r = Some j" by blast
  have "list_all isdecimal ds" using d(3) by (simp add: list_all_iff)
  moreover have "r = [] \<or> r = [CHR 0x0A]" using d(4) by (rule match_here_Dollar)
  ultimately have "link_tail u" using d(1,2) by (auto simp: link_tail_def digit_str_def)
  with t show ?thesis by blast
qed

lemma issue_url_shape:
  assumes "issue_url cfg_repo = Some url"
  shows "\<exists>p. url = p @ [One (Lit CHR ''/''), Plus Digit, Dollar]"
proof -
  from assms obtain repo_items where
    "url = lits ''https://github'' @ [One Dot] @ lits ''com/'' @ repo_items @ lits ''/issues/'' @ [Plus Digit, Dollar]"
    by (auto simp: issue_url_def split: option.splits)
  then have "url = (lits ''https://github'' @ [One Dot] @ lits ''com/'' @ repo_items @ lits ''/issues'')
                @ [One (Lit CHR ''/''), Plus Digit, Dollar]"
    by (simp add: lits_def)
  then show ?thesis by blast
qed

lemma issue_url_search_shape:
  assumes url: "issue_url cfg_repo = Some url" and found: "re_search url s \<noteq> None"
  shows "\<exists>pre u. s = pre @ CHR ''/'' # u \<and> link_tail u"
proof -
  from found obtain g where "re_search url s = Some g" by auto
  from re_search_Some[OF this] obtain i n where n: "match_here url (drop i s) = Some n" by blast
  from issue_url_shape[OF url] obtain p where p: "url = p @ [One (Lit CHR ''/''), Plus Digit, Dollar]" by blast
  from match_here_append[OF n[unfolded p]] obtain k m where
    "match_here [One (Lit CHR ''/''), Plus Digit, Dollar] (drop k (drop i s)) = Some m" by blast
  from match_here_tail[OF this] obtain u where u: "drop k (drop i s) = CHR ''/'' # u" "link_tail u" by blast
  have "s = take (i + k) s @ drop (i + k) s" by simp
  also have "drop (i + k) s = CHR ''/'' # u" using u(1) by (simp add: add.commute)
  finally show ?thesis using u(2) by blast
qed

lemma rsplit_last_after:
  assumes "CHR ''/'' \<notin> set u"
  shows "rsplit_last (pre @ CHR ''/'' # u) = Inr u"
proof -
  have "\<forall>c \<in> set (rev u). c \<noteq> CHR ''/''"
    using assms by auto
  then have "takeWhile (\<lambda>c. c \<noteq> CHR ''/'') (rev u @ CHR ''/'' # rev pre)
             = rev u @ takeWhile (\<lambda>c. c \<noteq> CHR ''/'') (CHR ''/'' # rev pre)"
    by (intro takeWhile_append2) blast
  then have "takeWhile (\<lambda>c. c \<noteq> CHR ''/'') (rev (pre @ CHR ''/'' # u)) = rev u"
    by simp
  then have "rev (takeWhile (\<lambda>c. c \<noteq> CHR ''/'') (rev (pre @ CHR ''/'' # u))) = u"
    by (simp only: rev_rev_ident)
  moreover have "CHR ''/'' \<in> set (pre @ CHR ''/'' # u)" by simp
  ultimately show ?thesis unfolding rsplit_last_def by (simp only: if_True)
qed

lemma body_list_of_total:
  assumes url: "issue_url cfg_repo = Some url"
  shows "\<exists>nums. body_list_of url frags = Inr nums \<and> list_all link_tail nums"
proof (induction frags)
  case Nil
  then show ?case by simp
next
  case (Cons s ss)
  then obtain nums where nums: "body_list_of url ss = Inr nums" "list_all link_tail nums" by blast
  show ?case
  proof (cases "re_search url s = None")
    case True
    then show ?thesis using nums by simp
  next
    case False
    from issue_url_search_shape[OF url False] obtain pre u where s: "s = pre @ CHR ''/'' # u" and u: "link_tail u" by blast
    have "rsplit_last s = Inr u" unfolding s using link_tail_no_slash[OF u] by (rule rsplit_last_after)
    then show ?thesis using False nums u by simp
  qed
qed

lemma subject_issue_shape:
  assumes "re_search subject_issue_str s = Some g"
  shows "\<exists>ds. g = ''(Issue #'' @ ds @ '')'' \<and> digit_str ds"
proof -
  from re_search_Some[OF assms] obtain i n where
    n: "match_here subject_issue_str (drop i s) = Some n" and g: "g = take n (drop i s)" by blast
  have "match_here (lits ''(Issue #'' @ ([Plus Digit] @ lits '')'')) (drop i s) = Some n"
    using n by (simp add: subject_issue_str_def)
  then obtain r m where r: "drop i s = ''(Issue #'' @ r"
      and rm: "match_here ([Plus Digit] @ lits '')'') r = Some m"
      and nm: "n = length ''(Issue #'' + m"
    unfolding match_here_lits by blast
  from rm have "match_here (Plus Digit # lits '')'') r = Some m" by simp
  from match_here_Plus[OF this] obtain ds r' m' where
    d: "r = ds @ r'" "ds \<noteq> []" "list_all (atom_matches Digit) ds"
       "match_here (lits '')'') r' = Some m'" "m = length ds + m'" by blast
  from d(4) have "match_here (lits '')'' @ []) r' = Some m'" by simp
  then obtain r'' k where r'': "r' = '')'' @ r''" and k: "match_here [] r'' = Some k"
      and m': "m' = length '')'' + k"
    unfolding match_here_lits by blast
  have k0: "k = 0" using k by simp
  have "list_all isdecimal ds" using d(3) by (simp add: list_all_iff)
  then have "digit_str ds" using d(2) by (simp add: digit_str_def)
  moreover have "g = ''(Issue #'' @ ds @ '')''"
    unfolding g r d(1) r'' nm d(5) m' k0 by simp
  ultimately show ?thesis by blast
qed

section \<open>Runs of the parser on concrete inboxes\<close>

text \<open>
  C1. The claim: the identifiers are sorted numerically and the range runs from the
  smallest to the largest, so its first element is at most its second. The source sorts
  the identifiers as text, before \<^verbatim>\<open>int\<close> is applied: on an inbox that reports the
  issues 9 and 10 the sorted list is \<open>[''10'', ''9'']\<close> and the range is \<open>(10, 9)\<close>.
\<close>

theorem range_of_9_and_10_is_reversed:
  "get_issue_num_list
     [(0, \<lparr>date = ''Mon, 1 Jan 2024'', subject = ''[acme/widget] Crash (Issue #9)'',
           body = [''https://github.com/acme/widget/issues/9'']\<rparr>),
      (1, \<lparr>date = ''Tue, 2 Jan 2024'', subject = ''[acme/widget] Typo (Issue #10)'',
           body = [''https://github.com/acme/widget/issues/10'']\<rparr>)]
     [''repo'' \<mapsto> ''acme/widget'', ''sender'' \<mapsto> ''github''] = Inr [''10'', ''9'']
   \<and> main_issue_range
     [(0, \<lparr>date = ''Mon, 1 Jan 2024'', subject = ''[acme/widget] Crash (Issue #9)'',
           body = [''https://github.com/acme/widget/issues/9'']\<rparr>),
      (1, \<lparr>date = ''Tue, 2 Jan 2024'', subject = ''[acme/widget] Typo (Issue #10)'',
           body = [''https://github.com/acme/widget/issues/10'']\<rparr>)]
     [''repo'' \<mapsto> ''acme/widget'', ''sender'' \<mapsto> ''github''] = Inr (10, 9)"
  by code_simp

text \<open>
  C3. The claim: of three messages, (a) with a creation link and the subject tag of issue
  10, (b) with no link and (c) with a creation link for issue 11 under the subject tag of
  issue 12, the last two are passed over and the range is \<open>(10, 10)\<close>. In the source the
  message (c) leaves \<^verbatim>\<open>issue_num\<close> empty, \<^verbatim>\<open>issue_list.append(*issue_num)\<close> is a call
  of \<^verbatim>\<open>append\<close> without an argument, and the run ends in a \<^verbatim>\<open>TypeError\<close>.
\<close>

theorem mismatched_subject_tag_raises:
  "main_issue_range
     (parse_email_bodies
       [(0, \<lparr>date = ''Mon, 1 Jan 2024'', subject = ''[acme/widget] Crash (Issue #10)'',
             body = ''A new issue was opened.\<newline>https://github.com/acme/widget/issues/10\<newline>''\<rparr>),
        (1, \<lparr>date = ''Tue, 2 Jan 2024'', subject = ''Weekly digest'',
             body = ''Nothing to see here.\<newline>''\<rparr>),
        (2, \<lparr>date = ''Wed, 3 Jan 2024'', subject = ''[acme/widget] Typo (Issue #12)'',
             body = ''See also\<newline>https://github.com/acme/widget/issues/11\<newline>''\<rparr>)])
     [''repo'' \<mapsto> ''acme/widget'', ''sender'' \<mapsto> ''github''] = Inl TypeError"
  by code_simp

text \<open>
  C4. The claim: the fragment that is open when the body ends is appended, and the
  fragments together are the body without its non-printable characters. The source
  assigns \<^verbatim>\<open>filtered_body_list\<close> right after the loop and never appends the open
  fragment: a body that does not end in a non-printable character loses its last run of
  printable characters.
\<close>

theorem last_fragment_is_dropped:
  "parse_body ''Hello\<newline>World'' = [''Hello'']
   \<and> concat (parse_body ''Hello\<newline>World'') \<noteq> filter isprintable ''Hello\<newline>World''
   \<and> parse_body ''World'' = []"
  by code_simp

section \<open>Senders without a rule\<close>

text \<open>
  C8. For every email dictionary, and every configuration that names a repository and a
  sender in which the text \<^verbatim>\<open>github\<close> does not occur (the sender \<^verbatim>\<open>jira\<close>, and every
  sender the parser has no rule for), \<^verbatim>\<open>get_issue_num_list\<close> returns the empty list and
  raises nothing.
\<close>

theorem other_sender_yields_nothing:
  assumes "cfg_dict ''repo'' = Some cfg_repo"
    and "cfg_dict ''sender'' = Some cfg_sender"
    and "\<not> (\<exists>pre post. cfg_sender = pre @ ''github'' @ post)"
  shows "get_issue_num_list email_dict cfg_dict = Inr []"
  using assms by (simp add: get_issue_num_list_def str_contains_iff)

theorem other_sender_yields_nothing_witness:
  "get_issue_num_list
     [(0, \<lparr>date = ''Mon, 1 Jan 2024'', subject = ''[acme/widget] Crash (Issue #9)'',
           body = [''https://github.com/acme/widget/issues/9'']\<rparr>)]
     [''repo'' \<mapsto> ''acme/widget'', ''sender'' \<mapsto> ''jira''] = Inr []"
proof -
  have h: "\<not> (\<exists>pre post. ''jira'' = pre @ ''github'' @ post)"
    unfolding str_contains_iff [symmetric] by simp
  show ?thesis
    by (rule other_sender_yields_nothing [OF _ _ h]) simp_all
qed

end
